theory Spec2Isabelle
  imports Main "HOL-Library.Word" "HOL-Library.Monad_Syntax"
begin

section \<open>Memory resources\<close>

text \<open>
  The region allocator of \<^verbatim>\<open>src/runtime/internal/region_allocator.h\<close> sub-allocates one
  block of device memory into regions held in a doubly-linked list. Its types and its
  alignment helpers are declared in \<^verbatim>\<open>memory_resources.h\<close>, and the storage of its list
  nodes in \<^verbatim>\<open>memory_arena.h\<close>; neither header is among the sources, so this section
  follows the specification's data model (section 3) and section 4.2.1.

  \<^verbatim>\<open>size_t\<close> values are 64-bit words: \<open>+\<close> and \<open>-\<close> wrap around, \<open><\<close> and \<open>\<le>\<close> compare
  unsigned. Pointers to list nodes are \<open>addr option\<close> with \<open>None\<close> for the null pointer; an
  opaque backend handle is a number with 0 for the null pointer.
\<close>

type_synonym size_t = "64 word"
type_synonym addr = nat

text \<open>Modelled from the spec: the enumerations of \<^verbatim>\<open>memory_resources.h\<close>. Each property axis
  is a small enum with a Default sentinel; the other values are told apart by a number.\<close>

datatype AllocationStatus = Available | InUse | Dedicated | Purgeable

datatype MemoryVisibility = DefaultVisibility | Visibility nat

datatype MemoryUsage = DefaultUsage | Usage nat

datatype MemoryCaching = DefaultCaching | Caching nat

text \<open>Modelled from the spec: the structs of \<^verbatim>\<open>memory_resources.h\<close>. The fields
  \<^verbatim>\<open>size\<close>, \<^verbatim>\<open>properties\<close>, \<^verbatim>\<open>dedicated\<close> and \<^verbatim>\<open>handle\<close> occur in several
  structs; those of a request carry the prefix \<open>request_\<close>, those of a block the prefix
  \<open>block_\<close>, and the \<^verbatim>\<open>size\<close> of a region is \<open>region_size\<close>.\<close>

record MemoryProperties =
  visibility :: MemoryVisibility
  usage :: MemoryUsage
  caching :: MemoryCaching
  alignment :: size_t

record MemoryRequest =
  request_size :: size_t
  request_alignment :: size_t
  request_properties :: MemoryProperties
  request_dedicated :: bool

record MemoryRegion =
  handle :: nat
  offset :: size_t
  region_size :: size_t
  properties :: MemoryProperties
  dedicated :: bool
  is_owner :: bool

record MemoryBlock =
  block_handle :: nat
  block_size :: size_t
  block_properties :: MemoryProperties
  block_dedicated :: bool

record BlockRegion =
  memory :: MemoryRegion
  usage_count :: "32 word"
  status :: AllocationStatus
  next_ptr :: "addr option"
  prev_ptr :: "addr option"
  block_ptr :: addr

record BlockResource =
  block_memory :: MemoryBlock
  reserved :: size_t
  regions :: "addr option"

text \<open>Modelled from the spec: the alignment helpers of \<^verbatim>\<open>memory_resources.h\<close>
  (section 4.2.1): \<^verbatim>\<open>conform_alignment(requested, required) = max(requested, required)\<close>
  rounded up to a power of two, \<^verbatim>\<open>aligned_offset(o, a) = round_up(o, a)\<close> and
  \<^verbatim>\<open>aligned_size(o, s, a) = round_up(o + s, a) - o\<close>, computed in \<^verbatim>\<open>size_t\<close>.\<close>

definition round_up :: "size_t \<Rightarrow> size_t \<Rightarrow> size_t" where
  "round_up x a = ((x + (a - 1)) div a) * a"

fun round_up_pow2_from :: "nat \<Rightarrow> nat \<Rightarrow> size_t \<Rightarrow> size_t" where
  "round_up_pow2_from 0 k x = 0"
| "round_up_pow2_from (Suc n) k x = (if x \<le> 2 ^ k then 2 ^ k else round_up_pow2_from n (Suc k) x)"

definition round_up_pow2 :: "size_t \<Rightarrow> size_t" where
  "round_up_pow2 x = round_up_pow2_from 64 0 x"

definition conform_alignment :: "size_t \<Rightarrow> size_t \<Rightarrow> size_t" where
  "conform_alignment requested required = round_up_pow2 (max requested required)"

definition aligned_offset :: "size_t \<Rightarrow> size_t \<Rightarrow> size_t" where
  "aligned_offset off a = round_up off a"

definition aligned_size :: "size_t \<Rightarrow> size_t \<Rightarrow> size_t \<Rightarrow> size_t" where
  "aligned_size off sz a = round_up (off + sz) a - off"

section \<open>The allocator's state\<close>

text \<open>
  A \<^verbatim>\<open>RegionAllocator\<close> holds a pointer to its block, an arena of list nodes and the
  callback table. The state below keeps the block resource itself (\<open>block\<close>) with the
  address the pointer has (\<open>block_addr\<close>), and the arena as a store from addresses to nodes.

  Modelled from the spec: the arena of \<^verbatim>\<open>memory_arena.h\<close> (section 4.1), whose
  \<^verbatim>\<open>reserve\<close> obtains a zeroed entry and whose \<^verbatim>\<open>reclaim\<close> returns one. An entry that is
  not live is absent from the store, and \<open>arena_next\<close> is the address the next
  \<^verbatim>\<open>reserve\<close> hands out.

  Modelled from the spec: the region callbacks of \<^verbatim>\<open>MemoryRegionAllocatorFns\<close>
  (section 6) return a status and write the region's handle. The allocator reads
  nothing else of them, and it overwrites the handle right after every deallocate, so
  the allocate callback is the function \<open>region_allocate\<close> from the region it is given to
  its status and the handle it writes, and \<open>calls\<close> records every invocation in order:
  the node whose region the callback is given, the region as it is passed, and for an
  allocation the status the callback returns.
\<close>

datatype region_call = Allocate addr MemoryRegion int | Deallocate addr MemoryRegion

record RegionAllocator =
  block :: BlockResource
  block_addr :: addr
  arena :: "addr \<rightharpoonup> BlockRegion"
  arena_next :: addr
  region_allocate :: "MemoryRegion \<Rightarrow> int \<times> nat"
  calls :: "region_call list"

text \<open>
  Every operation returns an option: \<open>None\<close> when the call does not return, which is
  a failed \<^verbatim>\<open>halide_abort_if_false\<close>, a read or write through a pointer to a node that
  is not live, or a walk of the list that never reaches the null pointer.
\<close>

definition update_region :: "addr \<Rightarrow> (BlockRegion \<Rightarrow> BlockRegion) \<Rightarrow> RegionAllocator \<Rightarrow> RegionAllocator option" where
  "update_region p f s = (case arena s p of None \<Rightarrow> None | Some r \<Rightarrow> Some (s\<lparr>arena := (arena s)(p \<mapsto> f r)\<rparr>))"

section \<open>The operations of region\_allocator.h\<close>

definition create_block_region :: "RegionAllocator \<Rightarrow> MemoryProperties \<Rightarrow> size_t \<Rightarrow> size_t \<Rightarrow> bool \<Rightarrow> addr \<times> RegionAllocator" where
  "create_block_region s props off sz ded =
     (let p = arena_next s;
          r = \<lparr>memory = \<lparr>handle = 0, offset = off, region_size = sz, properties = props,
                          dedicated = ded, is_owner = False\<rparr>,
               usage_count = 0, status = Available, next_ptr = None, prev_ptr = None,
               block_ptr = block_addr s\<rparr>
      in (p, s\<lparr>arena := (arena s)(p \<mapsto> r), arena_next := Suc p\<rparr>))"

definition initialize :: "addr \<Rightarrow> BlockResource \<Rightarrow> (MemoryRegion \<Rightarrow> int \<times> nat) \<Rightarrow> RegionAllocator" where
  "initialize ba mb ma =
     (let s = \<lparr>block = mb, block_addr = ba, arena = Map.empty, arena_next = 1,
               region_allocate = ma, calls = []\<rparr>;
          (p, s1) = create_block_region s (block_properties (block_memory mb)) 0
                      (block_size (block_memory mb)) (block_dedicated (block_memory mb))
      in s1\<lparr>block := (block s1)\<lparr>regions := Some p\<rparr>\<rparr>)"

definition region_available :: "BlockRegion \<Rightarrow> bool" where
  "region_available r = (if usage_count r > 0 then False
                         else if status r \<noteq> Available then False else True)"

definition is_available :: "RegionAllocator \<Rightarrow> addr option \<Rightarrow> bool option" where
  "is_available s bp = (case bp of None \<Rightarrow> Some False
                        | Some p \<Rightarrow> map_option region_available (arena s p))"

definition can_coalesce :: "RegionAllocator \<Rightarrow> addr option \<Rightarrow> bool option" where
  "can_coalesce s bp = do {
     a \<leftarrow> is_available s bp;
     if \<not> a then Some False
     else do {
       p \<leftarrow> bp;
       r \<leftarrow> arena s p;
       a1 \<leftarrow> is_available s (prev_ptr r);
       if a1 then Some True
       else do {
         a2 \<leftarrow> is_available s (next_ptr r);
         if a2 then Some True else Some False
       }
     }
   }"

definition is_compatible_block_region :: "BlockRegion \<Rightarrow> MemoryProperties \<Rightarrow> bool" where
  "is_compatible_block_region r props =
     (if caching props \<noteq> DefaultCaching \<and> caching props \<noteq> caching (properties (memory r)) then False
      else if visibility props \<noteq> DefaultVisibility \<and> visibility props \<noteq> visibility (properties (memory r)) then False
      else if usage props \<noteq> DefaultUsage \<and> usage props \<noteq> usage (properties (memory r)) then False
      else True)"

definition release_block_region :: "RegionAllocator \<Rightarrow> addr option \<Rightarrow> RegionAllocator option" where
  "release_block_region s bp =
     (case bp of None \<Rightarrow> Some s
      | Some p \<Rightarrow>
        (case arena s p of None \<Rightarrow> None
         | Some r \<Rightarrow>
           if usage_count r > 0 then Some s
           else
             let s1 = (if status r \<noteq> Available
                       then s\<lparr>block := (block s)\<lparr>reserved := reserved (block s) - region_size (memory r)\<rparr>\<rparr>
                       else s)
             in Some (s1\<lparr>arena := (arena s1)(p \<mapsto> r\<lparr>status := Available\<rparr>)\<rparr>)))"

definition free_block_region :: "RegionAllocator \<Rightarrow> addr \<Rightarrow> RegionAllocator option" where
  "free_block_region s p =
     (case arena s p of None \<Rightarrow> None
      | Some r \<Rightarrow>
        let (s1, r1) =
              (if usage_count r = 0 \<and> handle (memory r) \<noteq> 0
               then (s\<lparr>calls := calls s @ [Deallocate p (memory r)]\<rparr>,
                     r\<lparr>memory := (memory r)\<lparr>region_size := 0, offset := 0, handle := 0\<rparr>\<rparr>)
               else (s, r))
        in Some (s1\<lparr>arena := (arena s1)(p \<mapsto> r1\<lparr>usage_count := 0, status := Available\<rparr>)\<rparr>))"

definition destroy_block_region :: "RegionAllocator \<Rightarrow> addr \<Rightarrow> RegionAllocator option" where
  "destroy_block_region s p = do {
     s1 \<leftarrow> update_region p (\<lambda>r. r\<lparr>usage_count := 0\<rparr>) s;
     s2 \<leftarrow> free_block_region s1 p;
     Some (s2\<lparr>arena := (arena s2)(p := None)\<rparr>)
   }"

definition alloc_block_region :: "RegionAllocator \<Rightarrow> addr \<Rightarrow> RegionAllocator option" where
  "alloc_block_region s p =
     (case arena s p of None \<Rightarrow> None
      | Some r \<Rightarrow>
        if status r \<noteq> Available then None
        else
          let (s1, r1) =
                (if handle (memory r) = 0
                 then (let (st, h) = region_allocate s (memory r)
                       in (s\<lparr>calls := calls s @ [Allocate p (memory r) st]\<rparr>,
                           r\<lparr>memory := (memory r)\<lparr>handle := h, is_owner := True\<rparr>\<rparr>))
                 else (s, r));
              r2 = r1\<lparr>status := (if dedicated (memory r1) then Dedicated else InUse)\<rparr>
          in Some (s1\<lparr>arena := (arena s1)(p \<mapsto> r2),
                      block := (block s1)\<lparr>reserved := reserved (block s1) + region_size (memory r2)\<rparr>\<rparr>))"

definition can_split :: "RegionAllocator \<Rightarrow> addr option \<Rightarrow> size_t \<Rightarrow> bool option" where
  "can_split s bp sz =
     (case bp of None \<Rightarrow> Some False
      | Some p \<Rightarrow> map_option (\<lambda>r. region_size (memory r) > sz \<and> usage_count r = 0) (arena s p))"

text \<open>\<^verbatim>\<open>split_block_region\<close> and \<^verbatim>\<open>coalesce_block_regions\<close> both start with the same block:
  a region that is unreferenced and holds backend memory is handed to the deallocate
  callback and its handle is set to null; size and offset stay as they are.\<close>

definition deallocate_handle :: "RegionAllocator \<Rightarrow> addr \<Rightarrow> RegionAllocator option" where
  "deallocate_handle s p = do {
     r \<leftarrow> arena s p;
     if usage_count r = 0 \<and> handle (memory r) \<noteq> 0
     then update_region p (\<lambda>x. x\<lparr>memory := (memory x)\<lparr>handle := 0\<rparr>\<rparr>)
            (s\<lparr>calls := calls s @ [Deallocate p (memory r)]\<rparr>)
     else Some s
   }"

definition split_block_region :: "RegionAllocator \<Rightarrow> addr \<Rightarrow> size_t \<Rightarrow> size_t \<Rightarrow> (addr \<times> RegionAllocator) option" where
  "split_block_region s p sz algn = do {
     s1 \<leftarrow> deallocate_handle s p;
     r \<leftarrow> arena s1 p;
     let a = conform_alignment algn (alignment (block_properties (block_memory (block s1))));
         adjusted_size = aligned_size (offset (memory r)) sz a;
         adjusted_offset = aligned_offset (offset (memory r) + sz) a;
         empty_size = region_size (memory r) - adjusted_size;
         next_region = next_ptr r;
         (e, s2) = create_block_region s1 (properties (memory r)) adjusted_offset empty_size
                     (dedicated (memory r))
     in do {
       s3 \<leftarrow> update_region e (\<lambda>x. x\<lparr>next_ptr := next_region\<rparr>) s2;
       s4 \<leftarrow> (case next_region of None \<Rightarrow> Some s3
              | Some n \<Rightarrow> update_region n (\<lambda>x. x\<lparr>prev_ptr := Some e\<rparr>) s3);
       s5 \<leftarrow> update_region p (\<lambda>x. x\<lparr>next_ptr := Some e\<rparr>) s4;
       s6 \<leftarrow> update_region p (\<lambda>x. x\<lparr>memory := (memory x)\<lparr>region_size := sz\<rparr>\<rparr>) s5;
       Some (e, s6)
     }
   }"

text \<open>The second block of \<^verbatim>\<open>coalesce_block_regions\<close>: when the previous region is
  available, the region at \<open>p\<close> is merged into it and destroyed, and the previous region
  is the current one from then on.\<close>

definition coalesce_prev :: "RegionAllocator \<Rightarrow> addr \<Rightarrow> (addr \<times> RegionAllocator) option" where
  "coalesce_prev s p = do {
     r \<leftarrow> arena s p;
     a \<leftarrow> is_available s (prev_ptr r);
     if a then do {
       prev_region \<leftarrow> prev_ptr r;
       t1 \<leftarrow> update_region prev_region (\<lambda>x. x\<lparr>next_ptr := next_ptr r\<rparr>) s;
       b1 \<leftarrow> arena t1 p;
       t2 \<leftarrow> (case next_ptr b1 of None \<Rightarrow> Some t1
              | Some n \<Rightarrow> update_region n (\<lambda>x. x\<lparr>prev_ptr := Some prev_region\<rparr>) t1);
       b2 \<leftarrow> arena t2 p;
       t3 \<leftarrow> update_region prev_region
               (\<lambda>x. x\<lparr>memory := (memory x)\<lparr>region_size := region_size (memory x) + region_size (memory b2)\<rparr>\<rparr>) t2;
       t4 \<leftarrow> destroy_block_region t3 p;
       Some (prev_region, t4)
     } else Some (p, s)
   }"

text \<open>The third block: when the region after the current one is available, it is
  merged into the current one and destroyed.\<close>

definition coalesce_next :: "RegionAllocator \<Rightarrow> addr \<Rightarrow> RegionAllocator option" where
  "coalesce_next s q = do {
     r \<leftarrow> arena s q;
     a \<leftarrow> is_available s (next_ptr r);
     if a then do {
       next_region \<leftarrow> next_ptr r;
       n0 \<leftarrow> arena s next_region;
       t1 \<leftarrow> (case next_ptr n0 of None \<Rightarrow> Some s
              | Some m \<Rightarrow> update_region m (\<lambda>x. x\<lparr>prev_ptr := Some q\<rparr>) s);
       n1 \<leftarrow> arena t1 next_region;
       t2 \<leftarrow> update_region q (\<lambda>x. x\<lparr>next_ptr := next_ptr n1\<rparr>) t1;
       n2 \<leftarrow> arena t2 next_region;
       t3 \<leftarrow> update_region q
               (\<lambda>x. x\<lparr>memory := (memory x)\<lparr>region_size := region_size (memory x) + region_size (memory n2)\<rparr>\<rparr>) t2;
       destroy_block_region t3 next_region
     } else Some s
   }"

definition coalesce_block_regions :: "RegionAllocator \<Rightarrow> addr \<Rightarrow> (addr \<times> RegionAllocator) option" where
  "coalesce_block_regions s p = do {
     s1 \<leftarrow> deallocate_handle s p;
     (q, s2) \<leftarrow> coalesce_prev s1 p;
     s3 \<leftarrow> coalesce_next s2 q;
     Some (q, s3)
   }"

partial_function (option) find_from :: "RegionAllocator \<Rightarrow> MemoryRequest \<Rightarrow> addr option \<Rightarrow> addr option option" where
  "find_from s request bp =
     (case bp of None \<Rightarrow> Some None
      | Some p \<Rightarrow>
        (case arena s p of None \<Rightarrow> None
         | Some r \<Rightarrow>
           if \<not> region_available r then find_from s request (next_ptr r)
           else if \<not> is_compatible_block_region r (request_properties request)
             then find_from s request (next_ptr r)
           else if request_size request > region_size (memory r)
             then find_from s request (next_ptr r)
           else
             let actual_alignment = conform_alignment (request_alignment request)
                                      (alignment (block_properties (block_memory (block s))));
                 actual_size = aligned_size (offset (memory r)) (request_size request) actual_alignment
             in if actual_size > region_size (memory r) then find_from s request (next_ptr r)
                else if actual_size + reserved (block s) \<le> block_size (block_memory (block s))
                  then Some (Some p)
                else find_from s request (next_ptr r)))"

declare find_from.simps [code]

definition find_block_region :: "RegionAllocator \<Rightarrow> MemoryRequest \<Rightarrow> addr option option" where
  "find_block_region s request = find_from s request (regions (block s))"

definition reserve :: "RegionAllocator \<Rightarrow> MemoryRequest \<Rightarrow> (addr option \<times> RegionAllocator) option" where
  "reserve s request =
     (if \<not> request_size request > 0 then None
      else
        let remaining = block_size (block_memory (block s)) - reserved (block s)
        in if remaining < request_size request then Some (None, s)
           else do {
             found \<leftarrow> find_block_region s request;
             case found of None \<Rightarrow> Some (None, s)
             | Some p \<Rightarrow> do {
                 c \<leftarrow> can_split s (Some p) (request_size request);
                 s1 \<leftarrow> (if c then map_option snd
                                   (split_block_region s p (request_size request) (request_alignment request))
                        else Some s);
                 s2 \<leftarrow> alloc_block_region s1 p;
                 s3 \<leftarrow> update_region p (\<lambda>r. r\<lparr>usage_count := 1\<rparr>) s2;
                 Some (Some p, s3)
               }
           })"

definition check_region :: "RegionAllocator \<Rightarrow> addr option \<Rightarrow> addr option" where
  "check_region s mr = do {
     p \<leftarrow> mr;
     r \<leftarrow> arena s p;
     if block_ptr r = block_addr s then Some p else None
   }"

definition decrement_usage :: "BlockRegion \<Rightarrow> BlockRegion" where
  "decrement_usage r = (if usage_count r > 0 then r\<lparr>usage_count := usage_count r - 1\<rparr> else r)"

definition release :: "RegionAllocator \<Rightarrow> addr option \<Rightarrow> RegionAllocator option" where
  "release s mr = do {
     p \<leftarrow> check_region s mr;
     s1 \<leftarrow> update_region p decrement_usage s;
     release_block_region s1 (Some p)
   }"

definition reclaim :: "RegionAllocator \<Rightarrow> addr option \<Rightarrow> RegionAllocator option" where
  "reclaim s mr = do {
     p \<leftarrow> check_region s mr;
     s1 \<leftarrow> update_region p decrement_usage s;
     s2 \<leftarrow> release_block_region s1 (Some p);
     s3 \<leftarrow> free_block_region s2 p;
     c \<leftarrow> can_coalesce s3 (Some p);
     if c then map_option snd (coalesce_block_regions s3 p) else Some s3
   }"

definition retain :: "RegionAllocator \<Rightarrow> addr option \<Rightarrow> RegionAllocator option" where
  "retain s mr = do {
     p \<leftarrow> check_region s mr;
     update_region p (\<lambda>r. r\<lparr>usage_count := usage_count r + 1\<rparr>) s
   }"

partial_function (option) release_from :: "RegionAllocator \<Rightarrow> addr option \<Rightarrow> RegionAllocator option" where
  "release_from s bp =
     (case bp of None \<Rightarrow> Some s
      | Some p \<Rightarrow> do {
          s1 \<leftarrow> release_block_region s (Some p);
          r \<leftarrow> arena s1 p;
          release_from s1 (next_ptr r)
        })"

declare release_from.simps [code]

definition release_all :: "RegionAllocator \<Rightarrow> RegionAllocator option" where
  "release_all s = release_from s (regions (block s))"

partial_function (option) collect_from :: "RegionAllocator \<Rightarrow> addr option \<Rightarrow> bool \<Rightarrow> (bool \<times> RegionAllocator) option" where
  "collect_from s bp result =
     (case bp of None \<Rightarrow> Some (result, s)
      | Some p \<Rightarrow> do {
          c \<leftarrow> can_coalesce s (Some p);
          if c then do {
            (q, s1) \<leftarrow> coalesce_block_regions s p;
            r \<leftarrow> arena s1 q;
            collect_from s1 (next_ptr r) True
          } else do {
            r \<leftarrow> arena s p;
            collect_from s (next_ptr r) result
          }
        })"

declare collect_from.simps [code]

definition collect :: "RegionAllocator \<Rightarrow> (bool \<times> RegionAllocator) option" where
  "collect s = collect_from s (regions (block s)) False"


section \<open>Call sequences and the region list\<close>

text \<open>A public call of the allocator, and a run of calls from a state. The values
  \<^verbatim>\<open>reserve\<close> and \<^verbatim>\<open>collect\<close> return are dropped by \<open>step\<close>; a caller that keeps the
  pointer \<^verbatim>\<open>reserve\<close> returned passes it to a later call.\<close>

datatype call =
  Reserve MemoryRequest
| Release "addr option"
| Reclaim "addr option"
| Retain "addr option"
| Collect
| ReleaseAll

fun step :: "RegionAllocator \<Rightarrow> call \<Rightarrow> RegionAllocator option" where
  "step s (Reserve request) = map_option snd (reserve s request)"
| "step s (Release mr) = release s mr"
| "step s (Reclaim mr) = reclaim s mr"
| "step s (Retain mr) = retain s mr"
| "step s Collect = map_option snd (collect s)"
| "step s ReleaseAll = release_all s"

fun run :: "RegionAllocator \<Rightarrow> call list \<Rightarrow> RegionAllocator option" where
  "run s [] = Some s"
| "run s (c # cs) = (case step s c of None \<Rightarrow> None | Some s1 \<Rightarrow> run s1 cs)"

text \<open>\<open>region_list h bp ps\<close>: following \<^verbatim>\<open>next_ptr\<close> from the pointer \<open>bp\<close> in the store \<open>h\<close>
  visits the live nodes \<open>ps\<close> in this order and then reaches the null pointer.\<close>

primrec region_list :: "(addr \<rightharpoonup> BlockRegion) \<Rightarrow> addr option \<Rightarrow> addr list \<Rightarrow> bool" where
  "region_list h bp [] = (bp = None)"
| "region_list h bp (a # as) =
     (bp = Some a \<and> (case h a of None \<Rightarrow> False | Some r \<Rightarrow> region_list h (next_ptr r) as))"

text \<open>\<open>region_path h bp ps q\<close>: following \<^verbatim>\<open>next_ptr\<close> from \<open>bp\<close> visits the live nodes \<open>ps\<close> in
  this order and then reaches the pointer \<open>q\<close>.\<close>

primrec region_path :: "(addr \<rightharpoonup> BlockRegion) \<Rightarrow> addr option \<Rightarrow> addr list \<Rightarrow> addr option \<Rightarrow> bool" where
  "region_path h bp [] q = (bp = q)"
| "region_path h bp (a # as) q =
     (bp = Some a \<and> (case h a of None \<Rightarrow> False | Some r \<Rightarrow> region_path h (next_ptr r) as q))"

definition block_regions :: "RegionAllocator \<Rightarrow> addr list \<Rightarrow> bool" where
  "block_regions s ps = region_list (arena s) (regions (block s)) ps"

definition in_use :: "BlockRegion \<Rightarrow> bool" where
  "in_use r = (status r = InUse \<or> status r = Dedicated)"

text \<open>The bytes of the regions \<open>ps\<close> whose status is InUse or Dedicated, as a natural number.\<close>

definition in_use_bytes :: "RegionAllocator \<Rightarrow> addr list \<Rightarrow> nat" where
  "in_use_bytes s ps =
     sum_list (map (\<lambda>a. case arena s a of None \<Rightarrow> 0
                         | Some r \<Rightarrow> if in_use r then unat (region_size (memory r)) else 0) ps)"

text \<open>The net usage count of a region after a run of calls, counted the way the
  specification does: 1 for the \<^verbatim>\<open>reserve\<close> that returned the region, one more for every
  \<^verbatim>\<open>retain\<close> and one less for every \<^verbatim>\<open>release\<close>.\<close>

fun usage_delta :: "call \<Rightarrow> int" where
  "usage_delta (Retain mr) = 1"
| "usage_delta (Release mr) = - 1"
| "usage_delta c = 0"

definition net_usage :: "call list \<Rightarrow> int" where
  "net_usage cs = 1 + sum_list (map usage_delta cs)"

definition net_stays_positive :: "call list \<Rightarrow> bool" where
  "net_stays_positive cs = list_all (\<lambda>k. 0 < net_usage (take k cs)) [0..<Suc (length cs)]"


text \<open>\<open>keeps_placement f\<close>: the update \<open>f\<close> of a node changes neither its offset, nor its
  handle, nor the block it points to.\<close>

definition keeps_placement :: "(BlockRegion \<Rightarrow> BlockRegion) \<Rightarrow> bool" where
  "keeps_placement f \<longleftrightarrow>
     (\<forall>x. offset (memory (f x)) = offset (memory x) \<and> block_ptr (f x) = block_ptr x
          \<and> handle (memory (f x)) = handle (memory x))"


text \<open>What the specification asks of the region \<^verbatim>\<open>reserve\<close> selects (section 4.2): it is
  available, compatible with the requested properties, at least as large as the request,
  and the aligned size of the request at its offset fits the region and, added to the
  reserved bytes, the block. A region is available when \<^verbatim>\<open>is_available\<close> says so: its
  status is Available and its usage count is 0.\<close>

definition fits :: "RegionAllocator \<Rightarrow> MemoryRequest \<Rightarrow> BlockRegion \<Rightarrow> bool" where
  "fits s request r =
     (region_available r
      \<and> is_compatible_block_region r (request_properties request)
      \<and> request_size request \<le> region_size (memory r)
      \<and> aligned_size (offset (memory r)) (request_size request)
           (conform_alignment (request_alignment request)
              (alignment (block_properties (block_memory (block s)))))
          \<le> region_size (memory r)
      \<and> aligned_size (offset (memory r)) (request_size request)
           (conform_alignment (request_alignment request)
              (alignment (block_properties (block_memory (block s)))))
          + reserved (block s) \<le> block_size (block_memory (block s)))"

definition fits_at :: "RegionAllocator \<Rightarrow> MemoryRequest \<Rightarrow> addr \<Rightarrow> bool" where
  "fits_at s request a = (case arena s a of None \<Rightarrow> False | Some r \<Rightarrow> fits s request r)"

text \<open>The allocate callback that fails: it returns an error status and writes no handle.\<close>

definition failing_allocate :: "MemoryRegion \<Rightarrow> int \<times> nat" where
  "failing_allocate m = (- 1, 0)"

text \<open>\<open>prev_links h prev ps\<close>: every node of \<open>ps\<close> has a \<^verbatim>\<open>prev_ptr\<close> that is null or points to
  the node before it in \<open>ps\<close> (\<open>prev\<close> for the first). \<^verbatim>\<open>split_block_region\<close> never sets the
  \<^verbatim>\<open>prev_ptr\<close> of the region it creates, so the null pointer occurs inside the list.\<close>

primrec prev_links :: "(addr \<rightharpoonup> BlockRegion) \<Rightarrow> addr option \<Rightarrow> addr list \<Rightarrow> bool" where
  "prev_links h prev [] = True"
| "prev_links h prev (a # as) =
     (case h a of None \<Rightarrow> False
      | Some r \<Rightarrow> (prev_ptr r = None \<or> prev_ptr r = prev) \<and> prev_links h (Some a) as)"

text \<open>The pointer to the last node of \<open>ps\<close>, or \<open>prev\<close> when \<open>ps\<close> is empty.\<close>

fun last_ptr :: "addr option \<Rightarrow> addr list \<Rightarrow> addr option" where
  "last_ptr prev [] = prev"
| "last_ptr prev (a # as) = last_ptr (Some a) as"

text \<open>\<open>well_formed s ps\<close>: the store of \<open>s\<close> holds exactly the nodes \<open>ps\<close>, which are the
  region list of the block in this order; their back links are null or right, they
  point to this block, and their addresses are below the next address of the arena.\<close>

definition well_formed :: "RegionAllocator \<Rightarrow> addr list \<Rightarrow> bool" where
  "well_formed s ps \<longleftrightarrow>
     region_list (arena s) (regions (block s)) ps
     \<and> prev_links (arena s) None ps
     \<and> dom (arena s) = set ps
     \<and> (\<forall>a\<in>set ps. a < arena_next s)
     \<and> (\<forall>a r. arena s a = Some r \<longrightarrow> block_ptr r = block_addr s)"

text \<open>\<open>keeps_links f\<close>: the update \<open>f\<close> of a node changes none of its three pointers.\<close>

definition keeps_links :: "(BlockRegion \<Rightarrow> BlockRegion) \<Rightarrow> bool" where
  "keeps_links f \<longleftrightarrow>
     (\<forall>x. next_ptr (f x) = next_ptr x \<and> prev_ptr (f x) = prev_ptr x \<and> block_ptr (f x) = block_ptr x)"

text \<open>\<open>node_step P p s s'\<close>: from \<open>s\<close> to \<open>s'\<close> only the node at \<open>p\<close> changed in the store,
  from a node \<open>r\<close> to a node \<open>r'\<close> with \<open>P r r'\<close>; the head of the list, the block's memory, the
  arena's next address and the callback table are the same. \<open>same_links\<close> and
  \<open>same_extent\<close> are the relations \<open>P\<close> used most: the pointers of the node, and its offset
  and size, are unchanged.\<close>

definition node_step :: "(BlockRegion \<Rightarrow> BlockRegion \<Rightarrow> bool) \<Rightarrow> addr \<Rightarrow> RegionAllocator \<Rightarrow> RegionAllocator \<Rightarrow> bool" where
  "node_step P p s s' \<longleftrightarrow>
     (\<exists>r r'. arena s p = Some r \<and> arena s' = (arena s)(p \<mapsto> r') \<and> P r r')
     \<and> regions (block s') = regions (block s) \<and> block_memory (block s') = block_memory (block s)
     \<and> arena_next s' = arena_next s \<and> block_addr s' = block_addr s
     \<and> region_allocate s' = region_allocate s"

definition same_links :: "BlockRegion \<Rightarrow> BlockRegion \<Rightarrow> bool" where
  "same_links r r' \<longleftrightarrow>
     next_ptr r' = next_ptr r \<and> prev_ptr r' = prev_ptr r \<and> block_ptr r' = block_ptr r"

definition same_extent :: "BlockRegion \<Rightarrow> BlockRegion \<Rightarrow> bool" where
  "same_extent r r' \<longleftrightarrow>
     offset (memory r') = offset (memory r) \<and> region_size (memory r') = region_size (memory r)"

section \<open>The set-up of the runtime test\<close>

text \<open>The block and the callbacks of \<^verbatim>\<open>test/runtime/block_allocator.cpp\<close>: a block of
  1024 bytes (\<^verbatim>\<open>minimum_block_size\<close>), default properties, and an allocate callback that
  writes the handle 1 and returns success (0). \<open>test_block a\<close> requires the alignment \<open>a\<close>
  of its regions.\<close>

definition test_properties :: "size_t \<Rightarrow> MemoryProperties" where
  "test_properties a = \<lparr>visibility = DefaultVisibility, usage = DefaultUsage,
                         caching = DefaultCaching, alignment = a\<rparr>"

definition test_block :: "size_t \<Rightarrow> BlockResource" where
  "test_block a = \<lparr>block_memory = \<lparr>block_handle = 1, block_size = 1024,
                                    block_properties = test_properties a, block_dedicated = False\<rparr>,
                    reserved = 0, regions = None\<rparr>"

definition allocate_region :: "MemoryRegion \<Rightarrow> int \<times> nat" where
  "allocate_region m = (0, 1)"

definition test_request :: "size_t \<Rightarrow> size_t \<Rightarrow> MemoryRequest" where
  "test_request sz a = \<lparr>request_size = sz, request_alignment = a,
                         request_properties = test_properties 0, request_dedicated = False\<rparr>"

definition test_allocator :: "size_t \<Rightarrow> RegionAllocator" where
  "test_allocator a = initialize 1 (test_block a) allocate_region"

text \<open>The node at \<open>p\<close> after a run, if the run returns and the node is live.\<close>

definition region_after :: "RegionAllocator \<Rightarrow> call list \<Rightarrow> addr \<Rightarrow> BlockRegion option" where
  "region_after s cs p = (case run s cs of None \<Rightarrow> None | Some s1 \<Rightarrow> arena s1 p)"

section \<open>Single calls\<close>

lemma check_region_Some:
  "arena s p = Some r \<Longrightarrow> block_ptr r = block_addr s \<Longrightarrow> check_region s (Some p) = Some p"
  by (simp add: check_region_def)

lemma retain_step:
  assumes "arena s p = Some r" "block_ptr r = block_addr s"
  shows "retain s (Some p) = Some (s\<lparr>arena := (arena s)(p \<mapsto> r\<lparr>usage_count := usage_count r + 1\<rparr>)\<rparr>)"
  using assms by (simp add: retain_def check_region_def update_region_def)

lemma release_step:
  assumes "arena s p = Some r" "block_ptr r = block_addr s"
  shows "release s (Some p) =
     Some (if usage_count (decrement_usage r) > 0 then s\<lparr>arena := (arena s)(p \<mapsto> decrement_usage r)\<rparr>
           else if status r \<noteq> Available
             then s\<lparr>block := (block s)\<lparr>reserved := reserved (block s) - region_size (memory r)\<rparr>,
                    arena := (arena s)(p \<mapsto> (decrement_usage r)\<lparr>status := Available\<rparr>)\<rparr>
           else s\<lparr>arena := (arena s)(p \<mapsto> (decrement_usage r)\<lparr>status := Available\<rparr>)\<rparr>)"
proof -
  have [simp]: "status (decrement_usage r) = status r" "memory (decrement_usage r) = memory r"
    by (simp_all add: decrement_usage_def)
  show ?thesis using assms
    by (simp add: release_def check_region_def update_region_def release_block_region_def Let_def)
qed

lemma usage_count_decrement:
  "unat (usage_count (decrement_usage r)) = unat (usage_count r) - 1"
  by (simp add: decrement_usage_def word_less_nat_alt unat_sub word_le_nat_alt unat_gt_0 Suc_leI unat_minus_one)

section \<open>Runs of retain and release on one region\<close>

lemma run_append: "run s (xs @ ys) = (case run s xs of None \<Rightarrow> None | Some s1 \<Rightarrow> run s1 ys)"
  by (induction xs arbitrary: s) (auto split: option.splits)

lemma net_usage_snoc: "net_usage (cs @ [c]) = net_usage cs + usage_delta c"
  by (simp add: net_usage_def)

lemma net_stays_positive_iff:
  "net_stays_positive cs \<longleftrightarrow> (\<forall>k\<le>length cs. 0 < net_usage (take k cs))"
  by (auto simp: net_stays_positive_def list_all_iff less_Suc_eq_le)

lemma net_stays_positive_snoc:
  "net_stays_positive (cs @ [c]) \<longleftrightarrow> net_stays_positive cs \<and> 0 < net_usage (cs @ [c])"
proof -
  have "(\<forall>k\<le>Suc (length cs). 0 < net_usage (take k (cs @ [c])))
        \<longleftrightarrow> (\<forall>k\<le>length cs. 0 < net_usage (take k (cs @ [c]))) \<and> 0 < net_usage (take (Suc (length cs)) (cs @ [c]))"
    by (auto simp: le_Suc_eq)
  then show ?thesis by (simp add: net_stays_positive_iff)
qed

lemma net_usage_bound: "net_usage cs \<le> 1 + int (length cs)"
proof (induction cs rule: rev_induct)
  case Nil
  then show ?case by (simp add: net_usage_def)
next
  case (snoc c cs)
  have "usage_delta c \<le> 1" by (cases c) auto
  with snoc show ?case by (simp add: net_usage_snoc)
qed

lemma usage_count_decrement_uint:
  "uint (usage_count (decrement_usage r)) = (if uint (usage_count r) = 0 then 0 else uint (usage_count r) - 1)"
proof (cases "usage_count r = 0")
  case True
  then show ?thesis by (simp add: decrement_usage_def)
next
  case False
  then have "uint (usage_count r) \<noteq> 0" by (simp add: uint_0_iff)
  then have "0 < uint (usage_count r)" using uint_ge_0 [of "usage_count r"] by linarith
  then have "uint (1 :: 32 word) \<le> uint (usage_count r)" by simp
  then have "uint (usage_count r - 1) = uint (usage_count r) - uint (1 :: 32 word)"
    by (simp only: uint_sub_lem)
  then show ?thesis using False \<open>0 < uint (usage_count r)\<close>
    by (simp add: decrement_usage_def word_gt_0)
qed

lemma retain_release_run:
  assumes r: "arena s p = Some r" "block_ptr r = block_addr s" "in_use r" "usage_count r = 1"
    and cs: "set cs \<subseteq> {Retain (Some p), Release (Some p)}" "length cs < 2 ^ 32 - 1"
  shows "\<exists>s' r'. run s cs = Some s' \<and> arena s' p = Some r' \<and> block_ptr r' = block_addr s'
           \<and> memory r' = memory r \<and> calls s' = calls s
           \<and> (if net_stays_positive cs
               then status r' = status r \<and> uint (usage_count r') = net_usage cs
                    \<and> reserved (block s') = reserved (block s)
               else status r' = Available \<and> uint (usage_count r') \<le> int (length cs)
                    \<and> reserved (block s') = reserved (block s) - region_size (memory r))"
  using cs
proof (induction cs rule: rev_induct)
  case Nil
  then show ?case using r by (simp add: net_stays_positive_iff net_usage_def)
next
  case (snoc c cs)
  then obtain s1 r1 where s1: "run s cs = Some s1" "arena s1 p = Some r1" "block_ptr r1 = block_addr s1"
      "memory r1 = memory r" "calls s1 = calls s"
      and inv: "if net_stays_positive cs
               then status r1 = status r \<and> uint (usage_count r1) = net_usage cs
                    \<and> reserved (block s1) = reserved (block s)
               else status r1 = Available \<and> uint (usage_count r1) \<le> int (length cs)
                    \<and> reserved (block s1) = reserved (block s) - region_size (memory r)"
    by auto
  have len: "length cs + 2 < 2 ^ 32" using snoc.prems(2) by simp
  have bound: "uint (usage_count r1) \<le> int (length cs) + 1"
    using inv net_usage_bound [of cs] by (auto split: if_splits)
  have c: "c = Retain (Some p) \<or> c = Release (Some p)" using snoc.prems(1) by auto
  have nsp: "net_stays_positive cs \<Longrightarrow> 0 < net_usage cs"
    by (auto simp: net_stays_positive_iff dest: spec [of _ "length cs"])
  have st: "status r \<noteq> Available" using r(3) by (auto simp: in_use_def)
  have goal: "\<exists>s' r'. run s (cs @ [c]) = Some s' \<and> arena s' p = Some r' \<and> block_ptr r' = block_addr s'
           \<and> memory r' = memory r \<and> calls s' = calls s
           \<and> (if net_stays_positive (cs @ [c])
               then status r' = status r \<and> uint (usage_count r') = net_usage (cs @ [c])
                    \<and> reserved (block s') = reserved (block s)
               else status r' = Available \<and> uint (usage_count r') \<le> int (length (cs @ [c]))
                    \<and> reserved (block s') = reserved (block s) - region_size (memory r))"
    if fin: "step s1 c = Some s2" "arena s2 p = Some r2" "block_ptr r2 = block_addr s2"
      "memory r2 = memory r" "calls s2 = calls s"
      "if net_stays_positive (cs @ [c])
               then status r2 = status r \<and> uint (usage_count r2) = net_usage (cs @ [c])
                    \<and> reserved (block s2) = reserved (block s)
               else status r2 = Available \<and> uint (usage_count r2) \<le> int (length (cs @ [c]))
                    \<and> reserved (block s2) = reserved (block s) - region_size (memory r)"
    for s2 r2
  proof -
    have "run s (cs @ [c]) = Some s2" using s1(1) fin(1) by (simp add: run_append)
    then show ?thesis using fin(2-6) by blast
  qed
  show ?case
  proof (cases "c = Retain (Some p)")
    case True
    have "uint (usage_count r1) + uint (1 :: 32 word) < 2 ^ LENGTH(32)"
      using bound len by simp
    then have un: "uint (usage_count r1 + 1) = uint (usage_count r1) + 1"
      by (simp only: uint_add_lem) simp
    let ?s2 = "s1\<lparr>arena := (arena s1)(p \<mapsto> r1\<lparr>usage_count := usage_count r1 + 1\<rparr>)\<rparr>"
    have step: "step s1 c = Some ?s2"
      using True retain_step [OF s1(2,3)] by simp
    have d: "usage_delta c = 1" using True by simp
    show ?thesis
    proof (rule goal [OF step])
      show "arena ?s2 p = Some (r1\<lparr>usage_count := usage_count r1 + 1\<rparr>)" by simp
      show "block_ptr (r1\<lparr>usage_count := usage_count r1 + 1\<rparr>) = block_addr ?s2" using s1(3) by simp
      show "memory (r1\<lparr>usage_count := usage_count r1 + 1\<rparr>) = memory r" using s1(4) by simp
      show "calls ?s2 = calls s" using s1(5) by simp
      show "if net_stays_positive (cs @ [c])
            then status (r1\<lparr>usage_count := usage_count r1 + 1\<rparr>) = status r
                 \<and> uint (usage_count (r1\<lparr>usage_count := usage_count r1 + 1\<rparr>)) = net_usage (cs @ [c])
                 \<and> reserved (block ?s2) = reserved (block s)
            else status (r1\<lparr>usage_count := usage_count r1 + 1\<rparr>) = Available
                 \<and> uint (usage_count (r1\<lparr>usage_count := usage_count r1 + 1\<rparr>)) \<le> int (length (cs @ [c]))
                 \<and> reserved (block ?s2) = reserved (block s) - region_size (memory r)"
      proof (cases "net_stays_positive cs")
        case True
        then have "net_stays_positive (cs @ [c])" using nsp d by (simp add: net_stays_positive_snoc net_usage_snoc)
        then show ?thesis using inv True un d by (simp add: net_usage_snoc)
      next
        case False
        then have "\<not> net_stays_positive (cs @ [c])" by (simp add: net_stays_positive_snoc)
        then show ?thesis using inv False un by simp
      qed
    qed
  next
    case False
    then have rel: "c = Release (Some p)" using c by simp
    have d: "usage_delta c = - 1" using rel by simp
    let ?r2 = "decrement_usage r1"
    have un: "uint (usage_count ?r2) = (if uint (usage_count r1) = 0 then 0 else uint (usage_count r1) - 1)"
      by (rule usage_count_decrement_uint)
    have mem: "memory ?r2 = memory r1" "status ?r2 = status r1" "block_ptr ?r2 = block_ptr r1"
      by (simp_all add: decrement_usage_def)
    have pos: "0 < usage_count ?r2 \<longleftrightarrow> 1 < uint (usage_count r1)"
      using un by (simp add: word_less_def)
    have step: "step s1 c = release s1 (Some p)" using rel by simp
    note rs = release_step [OF s1(2,3)]
    show ?thesis
    proof (cases "1 < uint (usage_count r1)")
      case True
      let ?s2 = "s1\<lparr>arena := (arena s1)(p \<mapsto> ?r2)\<rparr>"
      have step2: "step s1 c = Some ?s2" using step rs pos True by simp
      show ?thesis
      proof (rule goal [OF step2])
        show "arena ?s2 p = Some ?r2" by simp
        show "block_ptr ?r2 = block_addr ?s2" using s1(3) mem by simp
        show "memory ?r2 = memory r" using s1(4) mem by simp
        show "calls ?s2 = calls s" using s1(5) by simp
        show "if net_stays_positive (cs @ [c])
              then status ?r2 = status r \<and> uint (usage_count ?r2) = net_usage (cs @ [c])
                   \<and> reserved (block ?s2) = reserved (block s)
              else status ?r2 = Available \<and> uint (usage_count ?r2) \<le> int (length (cs @ [c]))
                   \<and> reserved (block ?s2) = reserved (block s) - region_size (memory r)"
        proof (cases "net_stays_positive cs")
          case nspos: True
          then have "net_stays_positive (cs @ [c])" using inv True d
            by (simp add: net_stays_positive_snoc net_usage_snoc)
          then show ?thesis using inv nspos un d True mem by (simp add: net_usage_snoc)
        next
          case nsneg: False
          then have "\<not> net_stays_positive (cs @ [c])" by (simp add: net_stays_positive_snoc)
          then show ?thesis using inv nsneg un mem True by simp
        qed
      qed
    next
      case False
      let ?b2 = "if status r1 \<noteq> Available
                 then (block s1)\<lparr>reserved := reserved (block s1) - region_size (memory r1)\<rparr>
                 else block s1"
      let ?s2 = "s1\<lparr>block := ?b2, arena := (arena s1)(p \<mapsto> ?r2\<lparr>status := Available\<rparr>)\<rparr>"
      have step2: "step s1 c = Some ?s2" using step rs pos False by simp
      have nn: "0 \<le> uint (usage_count r1)" by simp
      have zero: "uint (usage_count ?r2) = 0"
      proof (cases "uint (usage_count r1) = 0")
        case True
        then show ?thesis using un by simp
      next
        case nz: False
        then have "uint (usage_count r1) = 1" using False nn by linarith
        then show ?thesis using un by simp
      qed
      have neg: "\<not> net_stays_positive (cs @ [c])"
      proof (cases "net_stays_positive cs")
        case True
        then have "net_usage cs \<le> 1" using inv False by simp
        then show ?thesis using d by (simp add: net_stays_positive_snoc net_usage_snoc)
      next
        case False
        then show ?thesis by (simp add: net_stays_positive_snoc)
      qed
      show ?thesis
      proof (rule goal [OF step2])
        show "arena ?s2 p = Some (?r2\<lparr>status := Available\<rparr>)" by simp
        show "block_ptr (?r2\<lparr>status := Available\<rparr>) = block_addr ?s2" using s1(3) mem by simp
        show "memory (?r2\<lparr>status := Available\<rparr>) = memory r" using s1(4) mem by simp
        show "calls ?s2 = calls s" using s1(5) by simp
        show "if net_stays_positive (cs @ [c])
              then status (?r2\<lparr>status := Available\<rparr>) = status r
                   \<and> uint (usage_count (?r2\<lparr>status := Available\<rparr>)) = net_usage (cs @ [c])
                   \<and> reserved (block ?s2) = reserved (block s)
              else status (?r2\<lparr>status := Available\<rparr>) = Available
                   \<and> uint (usage_count (?r2\<lparr>status := Available\<rparr>)) \<le> int (length (cs @ [c]))
                   \<and> reserved (block ?s2) = reserved (block s) - region_size (memory r)"
        proof (cases "net_stays_positive cs")
          case True
          then show ?thesis using neg inv zero st s1(4) by simp
        next
          case False
          then show ?thesis using neg inv zero s1(4) by simp
        qed
      qed
    qed
  qed
qed

section \<open>What coalescing leaves alone\<close>






lemma destroy_block_region_gone:
  assumes "destroy_block_region s a = Some s'"
  shows "arena s' a = None"
  using assms
  by (auto simp: destroy_block_region_def update_region_def free_block_region_def
                 bind_eq_Some_conv Let_def
           split: option.splits if_splits)



lemma keeps_placement_simps [simp]:
  "keeps_placement (next_ptr_update g)"
  "keeps_placement (prev_ptr_update g)"
  "keeps_placement (\<lambda>x. x\<lparr>memory := (memory x)\<lparr>region_size := h x\<rparr>\<rparr>)"
  by (simp_all add: keeps_placement_def)







section \<open>The first statements of reclaim\<close>




section \<open>The search and the steps of reserve\<close>

lemma find_from_list:
  "region_list (arena s) bp ps \<Longrightarrow> find_from s request bp = Some (find (fits_at s request) ps)"
proof (induction ps arbitrary: bp)
  case Nil
  then show ?case by (subst find_from.simps) simp
next
  case (Cons a as)
  then obtain r where r: "bp = Some a" "arena s a = Some r" "region_list (arena s) (next_ptr r) as"
    by (auto split: option.splits)
  have ih: "find_from s request (next_ptr r) = Some (find (fits_at s request) as)"
    using Cons.IH r(3) by simp
  show ?case
    by (subst find_from.simps)
       (simp add: r ih fits_at_def fits_def Let_def not_le [symmetric] del: not_le)
qed

lemma reserve_cases:
  assumes "reserve s request = Some (res, s')"
  shows "0 < request_size request"
    and "block_size (block_memory (block s)) - reserved (block s) < request_size request
         \<Longrightarrow> res = None \<and> s' = s"
    and "\<not> block_size (block_memory (block s)) - reserved (block s) < request_size request
         \<Longrightarrow> \<exists>found. find_block_region s request = Some found
               \<and> (case found of None \<Rightarrow> res = None \<and> s' = s
                   | Some p \<Rightarrow> res = Some p
                       \<and> (\<exists>c s1 s2. can_split s (Some p) (request_size request) = Some c
                           \<and> (if c then map_option snd (split_block_region s p (request_size request) (request_alignment request))
                               else Some s) = Some s1
                           \<and> alloc_block_region s1 p = Some s2
                           \<and> update_region p (\<lambda>r. r\<lparr>usage_count := 1\<rparr>) s2 = Some s'))"
proof -
  show sz: "0 < request_size request"
    using assms by (simp add: reserve_def split: if_splits)
  show "res = None \<and> s' = s"
    if "block_size (block_memory (block s)) - reserved (block s) < request_size request"
    using assms sz that by (simp add: reserve_def Let_def)
  show "\<exists>found. find_block_region s request = Some found
               \<and> (case found of None \<Rightarrow> res = None \<and> s' = s
                   | Some p \<Rightarrow> res = Some p
                       \<and> (\<exists>c s1 s2. can_split s (Some p) (request_size request) = Some c
                           \<and> (if c then map_option snd (split_block_region s p (request_size request) (request_alignment request))
                               else Some s) = Some s1
                           \<and> alloc_block_region s1 p = Some s2
                           \<and> update_region p (\<lambda>r. r\<lparr>usage_count := 1\<rparr>) s2 = Some s'))"
    if nf: "\<not> block_size (block_memory (block s)) - reserved (block s) < request_size request"
  proof -
    from assms sz nf have "\<exists>found. find_block_region s request = Some found \<and>
        (case found of None \<Rightarrow> Some (None, s)
             | Some p \<Rightarrow> do {
                 c \<leftarrow> can_split s (Some p) (request_size request);
                 s1 \<leftarrow> (if c then map_option snd
                                   (split_block_region s p (request_size request) (request_alignment request))
                        else Some s);
                 s2 \<leftarrow> alloc_block_region s1 p;
                 s3 \<leftarrow> update_region p (\<lambda>r. r\<lparr>usage_count := 1\<rparr>) s2;
                 Some (Some p, s3)
               }) = Some (res, s')"
      by (simp add: reserve_def Let_def bind_eq_Some_conv)
    then obtain found where
      f: "find_block_region s request = Some found"
      and rest: "(case found of None \<Rightarrow> Some (None, s)
             | Some p \<Rightarrow> do {
                 c \<leftarrow> can_split s (Some p) (request_size request);
                 s1 \<leftarrow> (if c then map_option snd
                                   (split_block_region s p (request_size request) (request_alignment request))
                        else Some s);
                 s2 \<leftarrow> alloc_block_region s1 p;
                 s3 \<leftarrow> update_region p (\<lambda>r. r\<lparr>usage_count := 1\<rparr>) s2;
                 Some (Some p, s3)
               }) = Some (res, s')"
      by (elim exE conjE)
    show ?thesis
    proof (cases found)
      case None
      then show ?thesis using f rest by simp
    next
      case (Some p)
      let ?split = "if c then map_option snd
                                   (split_block_region s p (request_size request) (request_alignment request))
                        else Some s"
      from rest Some have b0: "do {
                 c \<leftarrow> can_split s (Some p) (request_size request);
                 s1 \<leftarrow> (if c then map_option snd
                                   (split_block_region s p (request_size request) (request_alignment request))
                        else Some s);
                 s2 \<leftarrow> alloc_block_region s1 p;
                 s3 \<leftarrow> update_region p (\<lambda>r. r\<lparr>usage_count := 1\<rparr>) s2;
                 Some (Some p, s3)
               } = Some (res, s')" by simp
      then obtain c where c: "can_split s (Some p) (request_size request) = Some c"
        and b1: "do {
                 s1 \<leftarrow> (if c then map_option snd
                                   (split_block_region s p (request_size request) (request_alignment request))
                        else Some s);
                 s2 \<leftarrow> alloc_block_region s1 p;
                 s3 \<leftarrow> update_region p (\<lambda>r. r\<lparr>usage_count := 1\<rparr>) s2;
                 Some (Some p, s3)
               } = Some (res, s')"
        by (cases "can_split s (Some p) (request_size request)") simp_all
      from b1 obtain s1 where s1: "(if c then map_option snd
                                   (split_block_region s p (request_size request) (request_alignment request))
                        else Some s) = Some s1"
        and b2: "do {
                 s2 \<leftarrow> alloc_block_region s1 p;
                 s3 \<leftarrow> update_region p (\<lambda>r. r\<lparr>usage_count := 1\<rparr>) s2;
                 Some (Some p, s3)
               } = Some (res, s')"
        by (cases "if c then map_option snd
                                   (split_block_region s p (request_size request) (request_alignment request))
                        else Some s") simp_all
      from b2 obtain s2 where s2: "alloc_block_region s1 p = Some s2"
        and b3: "do {
                 s3 \<leftarrow> update_region p (\<lambda>r. r\<lparr>usage_count := 1\<rparr>) s2;
                 Some (Some p, s3)
               } = Some (res, s')"
        by (cases "alloc_block_region s1 p") simp_all
      from b3 have s3: "update_region p (\<lambda>r. r\<lparr>usage_count := 1\<rparr>) s2 = Some s'" and res: "res = Some p"
        by (cases "update_region p (\<lambda>r. r\<lparr>usage_count := 1\<rparr>) s2"; simp)+
      have "\<exists>c s1 s2. can_split s (Some p) (request_size request) = Some c
                           \<and> (if c then map_option snd (split_block_region s p (request_size request) (request_alignment request))
                               else Some s) = Some s1
                           \<and> alloc_block_region s1 p = Some s2
                           \<and> update_region p (\<lambda>r. r\<lparr>usage_count := 1\<rparr>) s2 = Some s'"
        by (intro exI [of _ c] exI [of _ s1] exI [of _ s2] conjI c s1 s2 s3)
      then show ?thesis using f Some res by simp
    qed
  qed
qed

section \<open>Region lists in the store\<close>

lemma region_path_Cons:
  "region_path h bp (a # as) q \<longleftrightarrow> bp = Some a \<and> (\<exists>r. h a = Some r \<and> region_path h (next_ptr r) as q)"
  by (cases "h a") simp_all

lemma region_list_Cons:
  "region_list h bp (a # as) \<longleftrightarrow> bp = Some a \<and> (\<exists>r. h a = Some r \<and> region_list h (next_ptr r) as)"
  by (cases "h a") simp_all

lemma prev_links_Cons:
  "prev_links h prev (a # as) \<longleftrightarrow>
     (\<exists>r. h a = Some r \<and> (prev_ptr r = None \<or> prev_ptr r = prev) \<and> prev_links h (Some a) as)"
  by (cases "h a") simp_all

lemma region_list_path: "region_list h bp ps = region_path h bp ps None"
proof (induction ps arbitrary: bp)
  case Nil
  show ?case by simp
next
  case (Cons a as)
  show ?case by (simp only: region_list_Cons region_path_Cons Cons.IH)
qed

lemma region_path_cong:
  assumes "\<And>a. a \<in> set ps \<Longrightarrow> map_option next_ptr (h' a) = map_option next_ptr (h a)"
  shows "region_path h' bp ps q = region_path h bp ps q"
  using assms
proof (induction ps arbitrary: bp)
  case Nil
  then show ?case by simp
next
  case (Cons a as)
  have a: "map_option next_ptr (h' a) = map_option next_ptr (h a)" using Cons.prems by simp
  have ih: "\<And>bp. region_path h' bp as q = region_path h bp as q" using Cons by simp
  show ?case
  proof (cases "h a")
    case None
    then have "h' a = None" using a by simp
    then show ?thesis using None by simp
  next
    case (Some r)
    then obtain r' where r': "h' a = Some r'" "next_ptr r' = next_ptr r" using a by auto
    then show ?thesis using Some ih by simp
  qed
qed

lemma region_list_cong:
  assumes "\<And>a. a \<in> set ps \<Longrightarrow> map_option next_ptr (h' a) = map_option next_ptr (h a)"
  shows "region_list h' bp ps = region_list h bp ps"
  unfolding region_list_path using assms by (rule region_path_cong)

lemma region_path_append:
  "region_path h bp (xs @ ys) q \<longleftrightarrow> (\<exists>m. region_path h bp xs m \<and> region_path h m ys q)"
proof (induction xs arbitrary: bp)
  case Nil
  show ?case by simp
next
  case (Cons a as)
  show ?case
    unfolding append_Cons region_path_Cons Cons.IH by blast
qed

lemma region_path_unique:
  "region_path h bp ps None \<Longrightarrow> region_path h bp qs None \<Longrightarrow> ps = qs"
proof (induction ps arbitrary: bp qs)
  case Nil
  then show ?case by (cases qs) (simp_all add: region_path_Cons)
next
  case (Cons a as)
  from Cons.prems(1) obtain r where r: "bp = Some a" "h a = Some r" "region_path h (next_ptr r) as None"
    unfolding region_path_Cons by blast
  show ?case
  proof (cases qs)
    case Nil
    then show ?thesis using Cons.prems(2) r by simp
  next
    case (Cons b bs)
    with Cons.prems(2) r have "b = a" "region_path h (next_ptr r) bs None"
      unfolding region_path_Cons by auto
    then show ?thesis using Cons Cons.IH [OF r(3)] by simp
  qed
qed

lemma region_path_hd_notin:
  assumes "h a = Some r" "region_path h (next_ptr r) as None"
  shows "a \<notin> set as"
proof
  assume "a \<in> set as"
  then obtain xs ys where as: "as = xs @ a # ys" by (auto simp: in_set_conv_decomp)
  from assms(2) [unfolded as region_path_append] obtain m where "region_path h m (a # ys) None"
    by blast
  then have "region_path h (next_ptr r) ys None" using assms(1) unfolding region_path_Cons by auto
  with assms(2) have "as = ys" by (rule region_path_unique)
  with as show False by simp
qed

lemma region_path_distinct: "region_path h bp ps None \<Longrightarrow> distinct ps"
proof (induction ps arbitrary: bp)
  case Nil
  then show ?case by simp
next
  case (Cons a as)
  then obtain r where r: "h a = Some r" "region_path h (next_ptr r) as None"
    unfolding region_path_Cons by blast
  then show ?case using Cons.IH region_path_hd_notin by auto
qed

lemma region_list_distinct: "region_list h bp ps \<Longrightarrow> distinct ps"
  by (simp add: region_list_path region_path_distinct)

lemma region_path_live: "region_path h bp ps q \<Longrightarrow> a \<in> set ps \<Longrightarrow> \<exists>r. h a = Some r"
proof (induction ps arbitrary: bp)
  case Nil
  then show ?case by simp
next
  case (Cons b bs)
  from Cons.prems(1) obtain r where r: "h b = Some r" "region_path h (next_ptr r) bs q"
    unfolding region_path_Cons by blast
  show ?case
  proof (cases "a = b")
    case True
    then show ?thesis using r by simp
  next
    case False
    then show ?thesis using Cons.IH [OF r(2)] Cons.prems(2) by simp
  qed
qed

lemma prev_links_cong:
  assumes "\<And>a. a \<in> set ps \<Longrightarrow> map_option prev_ptr (h' a) = map_option prev_ptr (h a)"
  shows "prev_links h' prev ps = prev_links h prev ps"
  using assms
proof (induction ps arbitrary: prev)
  case Nil
  then show ?case by simp
next
  case (Cons a as)
  have a: "map_option prev_ptr (h' a) = map_option prev_ptr (h a)" using Cons.prems by simp
  have ih: "\<And>prev. prev_links h' prev as = prev_links h prev as" using Cons by simp
  show ?case
  proof (cases "h a")
    case None
    then have "h' a = None" using a by simp
    then show ?thesis using None by simp
  next
    case (Some r)
    then obtain r' where r': "h' a = Some r'" "prev_ptr r' = prev_ptr r" using a by auto
    then show ?thesis using Some ih by simp
  qed
qed

lemma last_ptr_snoc [simp]: "last_ptr prev (xs @ [a]) = Some a"
  by (induction xs arbitrary: prev) simp_all

lemma last_ptr_append [simp]: "last_ptr prev (xs @ ys) = last_ptr (last_ptr prev xs) ys"
  by (induction xs arbitrary: prev) simp_all

lemma prev_links_append:
  "prev_links h prev (xs @ ys) \<longleftrightarrow> prev_links h prev xs \<and> prev_links h (last_ptr prev xs) ys"
proof (induction xs arbitrary: prev)
  case Nil
  then show ?case by simp
next
  case (Cons a as)
  show ?case
  proof (cases "h a")
    case None
    then show ?thesis by simp
  next
    case (Some r)
    then show ?thesis using Cons.IH [of "Some a"] by simp
  qed
qed

section \<open>Steps that change one node\<close>

lemma node_step_mono:
  "node_step P p s s' \<Longrightarrow> (\<And>r r'. P r r' \<Longrightarrow> Q r r') \<Longrightarrow> node_step Q p s s'"
  unfolding node_step_def by blast

lemma node_step_refl:
  assumes "arena s p = Some r" "P r r"
  shows "node_step P p s s"
proof -
  have "arena s = (arena s)(p \<mapsto> r)" using assms(1) by (simp add: fun_upd_idem)
  then show ?thesis unfolding node_step_def using assms by blast
qed

lemma node_step_trans:
  assumes "node_step P p s s1" "node_step Q p s1 s2"
    and "\<And>r r1 r2. P r r1 \<Longrightarrow> Q r1 r2 \<Longrightarrow> R r r2"
  shows "node_step R p s s2"
proof -
  from assms(1) obtain r r1 where 1: "arena s p = Some r" "arena s1 = (arena s)(p \<mapsto> r1)" "P r r1"
    unfolding node_step_def by blast
  from assms(2) obtain r1' r2 where 2: "arena s1 p = Some r1'" "arena s2 = (arena s1)(p \<mapsto> r2)" "Q r1' r2"
    unfolding node_step_def by blast
  have "r1' = r1" using 1(2) 2(1) by simp
  then have "arena s2 = (arena s)(p \<mapsto> r2)" "R r r2"
    using 1 2 assms(3) by simp_all
  then show ?thesis using 1(1) assms(1,2) unfolding node_step_def by auto
qed

lemma node_step_other:
  "node_step P p s s' \<Longrightarrow> a \<noteq> p \<Longrightarrow> arena s' a = arena s a"
  unfolding node_step_def by auto

lemma node_step_at:
  assumes "node_step P p s s'"
  obtains r r' where "arena s p = Some r" "arena s' p = Some r'" "P r r'"
  using assms unfolding node_step_def by auto

lemma update_region_step:
  assumes "update_region p f s = Some s'"
  shows "node_step (\<lambda>r r'. r' = f r) p s s'" "block s' = block s" "calls s' = calls s"
  using assms by (auto simp: update_region_def node_step_def split: option.splits)

lemma well_formed_node_step:
  assumes wf: "well_formed s ps" and st: "node_step same_links p s s'"
  shows "well_formed s' ps"
proof -
  from st obtain r r' where r: "arena s p = Some r" "arena s' = (arena s)(p \<mapsto> r')"
      "next_ptr r' = next_ptr r" "prev_ptr r' = prev_ptr r" "block_ptr r' = block_ptr r"
    and fr: "regions (block s') = regions (block s)" "arena_next s' = arena_next s"
      "block_addr s' = block_addr s"
    unfolding node_step_def same_links_def by blast
  have n: "map_option next_ptr (arena s' a) = map_option next_ptr (arena s a)" for a
    using r by simp
  have pv: "map_option prev_ptr (arena s' a) = map_option prev_ptr (arena s a)" for a
    using r by simp
  have "region_list (arena s') (regions (block s')) ps"
    using wf region_list_cong [of ps "arena s'" "arena s", OF n] fr by (simp add: well_formed_def)
  moreover have "prev_links (arena s') None ps"
    using wf prev_links_cong [of ps "arena s'" "arena s", OF pv] by (simp add: well_formed_def)
  moreover have "dom (arena s') = set ps"
    using wf r by (auto simp: well_formed_def)
  moreover have "\<forall>a\<in>set ps. a < arena_next s'" using wf fr by (simp add: well_formed_def)
  moreover have "\<forall>a x. arena s' a = Some x \<longrightarrow> block_ptr x = block_addr s'"
    using wf r fr by (auto simp: well_formed_def)
  ultimately show ?thesis by (simp add: well_formed_def)
qed

lemma release_block_region_step:
  assumes "release_block_region s (Some p) = Some s'"
  shows "\<exists>r. arena s p = Some r
           \<and> node_step (\<lambda>x r'. r' = (if usage_count r > 0 then r else r\<lparr>status := Available\<rparr>)) p s s'
           \<and> calls s' = calls s
           \<and> reserved (block s') =
                (if usage_count r > 0 \<or> status r = Available then reserved (block s)
                 else reserved (block s) - region_size (memory r))"
proof -
  from assms obtain r where r: "arena s p = Some r"
    by (cases "arena s p") (simp_all add: release_block_region_def)
  show ?thesis
  proof (cases "usage_count r > 0")
    case True
    then have "s' = s" using assms r by (simp add: release_block_region_def)
    then show ?thesis using r True by (auto intro: node_step_refl)
  next
    case False
    show ?thesis
    proof (cases "status r = Available")
      case True
      then have "s' = s\<lparr>arena := (arena s)(p \<mapsto> r\<lparr>status := Available\<rparr>)\<rparr>"
        using assms r False by (simp add: release_block_region_def)
      then show ?thesis using r False True by (simp add: node_step_def)
    next
      case ne: False
      then have "s' = s\<lparr>block := (block s)\<lparr>reserved := reserved (block s) - region_size (memory r)\<rparr>,
                       arena := (arena s)(p \<mapsto> r\<lparr>status := Available\<rparr>)\<rparr>"
        using assms r False by (simp add: release_block_region_def)
      then show ?thesis using r False ne by (simp add: node_step_def)
    qed
  qed
qed

lemma free_block_region_step:
  assumes "free_block_region s p = Some s'"
  shows "\<exists>r. arena s p = Some r
           \<and> node_step (\<lambda>x r'. r' = (if usage_count r = 0 \<and> handle (memory r) \<noteq> 0
                 then r\<lparr>memory := (memory r)\<lparr>region_size := 0, offset := 0, handle := 0\<rparr>,
                        usage_count := 0, status := Available\<rparr>
                 else r\<lparr>usage_count := 0, status := Available\<rparr>)) p s s'
           \<and> block s' = block s
           \<and> calls s' = (if usage_count r = 0 \<and> handle (memory r) \<noteq> 0
                          then calls s @ [Deallocate p (memory r)] else calls s)"
proof -
  from assms obtain r where r: "arena s p = Some r"
    by (cases "arena s p") (simp_all add: free_block_region_def)
  show ?thesis
  proof (cases "usage_count r = 0 \<and> handle (memory r) \<noteq> 0")
    case True
    then have "s' = s\<lparr>calls := calls s @ [Deallocate p (memory r)],
                     arena := (arena s)(p \<mapsto> r\<lparr>memory := (memory r)\<lparr>region_size := 0, offset := 0, handle := 0\<rparr>,
                        usage_count := 0, status := Available\<rparr>)\<rparr>"
      using assms r by (simp add: free_block_region_def)
    then show ?thesis using r True by (simp add: node_step_def)
  next
    case False
    then have "s' = s\<lparr>arena := (arena s)(p \<mapsto> r\<lparr>usage_count := 0, status := Available\<rparr>)\<rparr>"
      using assms r by (auto simp: free_block_region_def)
    then show ?thesis using r False by (auto simp: node_step_def)
  qed
qed

lemma alloc_block_region_step:
  assumes "alloc_block_region s p = Some s'"
  shows "\<exists>r. arena s p = Some r \<and> status r = Available
           \<and> node_step (\<lambda>x r'. r' = (if handle (memory r) = 0
                 then r\<lparr>memory := (memory r)\<lparr>handle := snd (region_allocate s (memory r)), is_owner := True\<rparr>,
                        status := (if dedicated (memory r) then Dedicated else InUse)\<rparr>
                 else r\<lparr>status := (if dedicated (memory r) then Dedicated else InUse)\<rparr>)) p s s'
           \<and> reserved (block s') = reserved (block s) + region_size (memory r)
           \<and> calls s' = (if handle (memory r) = 0
                          then calls s @ [Allocate p (memory r) (fst (region_allocate s (memory r)))]
                          else calls s)"
proof -
  from assms obtain r where r: "arena s p = Some r"
    by (cases "arena s p") (simp_all add: alloc_block_region_def)
  have st: "status r = Available"
    using assms r by (simp add: alloc_block_region_def split: if_splits)
  show ?thesis
  proof (cases "handle (memory r) = 0")
    case True
    then have "s' = s\<lparr>calls := calls s @ [Allocate p (memory r) (fst (region_allocate s (memory r)))],
                     arena := (arena s)(p \<mapsto> r\<lparr>memory := (memory r)\<lparr>handle := snd (region_allocate s (memory r)), is_owner := True\<rparr>,
                        status := (if dedicated (memory r) then Dedicated else InUse)\<rparr>),
                     block := (block s)\<lparr>reserved := reserved (block s) + region_size (memory r)\<rparr>\<rparr>"
      using assms r st by (simp add: alloc_block_region_def Let_def case_prod_beta)
    then show ?thesis using r st True by (simp add: node_step_def)
  next
    case False
    then have "s' = s\<lparr>arena := (arena s)(p \<mapsto> r\<lparr>status := (if dedicated (memory r) then Dedicated else InUse)\<rparr>),
                     block := (block s)\<lparr>reserved := reserved (block s) + region_size (memory r)\<rparr>\<rparr>"
      using assms r st by (simp add: alloc_block_region_def Let_def)
    then show ?thesis using r st False by (simp add: node_step_def)
  qed
qed

lemma deallocate_handle_step:
  assumes "deallocate_handle s p = Some s'"
  shows "\<exists>r. arena s p = Some r
           \<and> node_step (\<lambda>x r'. r' = (if usage_count r = 0 \<and> handle (memory r) \<noteq> 0
                 then r\<lparr>memory := (memory r)\<lparr>handle := 0\<rparr>\<rparr> else r)) p s s'
           \<and> block s' = block s"
proof -
  from assms obtain r where r: "arena s p = Some r"
    by (cases "arena s p") (simp_all add: deallocate_handle_def)
  show ?thesis
  proof (cases "usage_count r = 0 \<and> handle (memory r) \<noteq> 0")
    case True
    then have "s' = s\<lparr>calls := calls s @ [Deallocate p (memory r)],
                     arena := (arena s)(p \<mapsto> r\<lparr>memory := (memory r)\<lparr>handle := 0\<rparr>\<rparr>)\<rparr>"
      using assms r by (simp add: deallocate_handle_def update_region_def)
    then show ?thesis using r True by (simp add: node_step_def)
  next
    case False
    then have "s' = s" using assms r by (auto simp: deallocate_handle_def)
    then show ?thesis using r False by (auto intro: node_step_refl)
  qed
qed

section \<open>Splitting a region\<close>

lemma split_block_region_steps:
  assumes sp: "split_block_region s p sz algn = Some (e, s')"
  shows "\<exists>s1 r s3 s4 s5.
           deallocate_handle s p = Some s1
         \<and> arena s1 p = Some r
         \<and> e = arena_next s1
         \<and> update_region e (\<lambda>x. x\<lparr>next_ptr := next_ptr r\<rparr>)
              (s1\<lparr>arena := (arena s1)(arena_next s1 \<mapsto>
                   \<lparr>memory = \<lparr>handle = 0,
                       offset = aligned_offset (offset (memory r) + sz)
                                  (conform_alignment algn (alignment (block_properties (block_memory (block s1))))),
                       region_size = region_size (memory r) - aligned_size (offset (memory r)) sz
                                  (conform_alignment algn (alignment (block_properties (block_memory (block s1))))),
                       properties = properties (memory r),
                       dedicated = dedicated (memory r), is_owner = False\<rparr>,
                    usage_count = 0, status = Available, next_ptr = None, prev_ptr = None,
                    block_ptr = block_addr s1\<rparr>),
                  arena_next := Suc (arena_next s1)\<rparr>) = Some s3
         \<and> (case next_ptr r of None \<Rightarrow> Some s3
              | Some n \<Rightarrow> update_region n (\<lambda>x. x\<lparr>prev_ptr := Some e\<rparr>) s3) = Some s4
         \<and> update_region p (\<lambda>x. x\<lparr>next_ptr := Some e\<rparr>) s4 = Some s5
         \<and> update_region p (\<lambda>x. x\<lparr>memory := (memory x)\<lparr>region_size := sz\<rparr>\<rparr>) s5 = Some s'"
proof -
  from sp obtain s1 where s1: "deallocate_handle s p = Some s1"
    by (cases "deallocate_handle s p") (simp_all add: split_block_region_def)
  from sp s1 obtain r where r: "arena s1 p = Some r"
    by (cases "arena s1 p") (simp_all add: split_block_region_def)
  let ?s2 = "s1\<lparr>arena := (arena s1)(arena_next s1 \<mapsto>
                   \<lparr>memory = \<lparr>handle = 0,
                       offset = aligned_offset (offset (memory r) + sz)
                                  (conform_alignment algn (alignment (block_properties (block_memory (block s1))))),
                       region_size = region_size (memory r) - aligned_size (offset (memory r)) sz
                                  (conform_alignment algn (alignment (block_properties (block_memory (block s1))))),
                       properties = properties (memory r),
                       dedicated = dedicated (memory r), is_owner = False\<rparr>,
                    usage_count = 0, status = Available, next_ptr = None, prev_ptr = None,
                    block_ptr = block_addr s1\<rparr>),
                  arena_next := Suc (arena_next s1)\<rparr>"
  let ?e = "arena_next s1"
  from sp s1 r have b0: "do {
       s3 \<leftarrow> update_region ?e (\<lambda>x. x\<lparr>next_ptr := next_ptr r\<rparr>) ?s2;
       s4 \<leftarrow> (case next_ptr r of None \<Rightarrow> Some s3
              | Some n \<Rightarrow> update_region n (\<lambda>x. x\<lparr>prev_ptr := Some ?e\<rparr>) s3);
       s5 \<leftarrow> update_region p (\<lambda>x. x\<lparr>next_ptr := Some ?e\<rparr>) s4;
       s6 \<leftarrow> update_region p (\<lambda>x. x\<lparr>memory := (memory x)\<lparr>region_size := sz\<rparr>\<rparr>) s5;
       Some (?e, s6)
     } = Some (e, s')"
    by (simp add: split_block_region_def Let_def create_block_region_def)
  then obtain s3 where s3: "update_region ?e (\<lambda>x. x\<lparr>next_ptr := next_ptr r\<rparr>) ?s2 = Some s3"
    and b1: "do {
       s4 \<leftarrow> (case next_ptr r of None \<Rightarrow> Some s3
              | Some n \<Rightarrow> update_region n (\<lambda>x. x\<lparr>prev_ptr := Some ?e\<rparr>) s3);
       s5 \<leftarrow> update_region p (\<lambda>x. x\<lparr>next_ptr := Some ?e\<rparr>) s4;
       s6 \<leftarrow> update_region p (\<lambda>x. x\<lparr>memory := (memory x)\<lparr>region_size := sz\<rparr>\<rparr>) s5;
       Some (?e, s6)
     } = Some (e, s')"
    by (cases "update_region ?e (\<lambda>x. x\<lparr>next_ptr := next_ptr r\<rparr>) ?s2") simp_all
  from b1 obtain s4 where s4: "(case next_ptr r of None \<Rightarrow> Some s3
              | Some n \<Rightarrow> update_region n (\<lambda>x. x\<lparr>prev_ptr := Some ?e\<rparr>) s3) = Some s4"
    and b2: "do {
       s5 \<leftarrow> update_region p (\<lambda>x. x\<lparr>next_ptr := Some ?e\<rparr>) s4;
       s6 \<leftarrow> update_region p (\<lambda>x. x\<lparr>memory := (memory x)\<lparr>region_size := sz\<rparr>\<rparr>) s5;
       Some (?e, s6)
     } = Some (e, s')"
    by (cases "case next_ptr r of None \<Rightarrow> Some s3
              | Some n \<Rightarrow> update_region n (\<lambda>x. x\<lparr>prev_ptr := Some ?e\<rparr>) s3") simp_all
  from b2 obtain s5 where s5: "update_region p (\<lambda>x. x\<lparr>next_ptr := Some ?e\<rparr>) s4 = Some s5"
    and b3: "do {
       s6 \<leftarrow> update_region p (\<lambda>x. x\<lparr>memory := (memory x)\<lparr>region_size := sz\<rparr>\<rparr>) s5;
       Some (?e, s6)
     } = Some (e, s')"
    by (cases "update_region p (\<lambda>x. x\<lparr>next_ptr := Some ?e\<rparr>) s4") simp_all
  from b3 have s6: "update_region p (\<lambda>x. x\<lparr>memory := (memory x)\<lparr>region_size := sz\<rparr>\<rparr>) s5 = Some s'"
    and e: "e = ?e"
    by (cases "update_region p (\<lambda>x. x\<lparr>memory := (memory x)\<lparr>region_size := sz\<rparr>\<rparr>) s5"; simp)+
  show ?thesis
    unfolding e
    apply (rule exI [of _ s1], rule exI [of _ r], rule exI [of _ s3], rule exI [of _ s4],
           rule exI [of _ s5])
    apply (intro conjI)
    apply (rule s1)
    apply (rule r)
    apply (rule refl)
    apply (rule s3)
    apply (rule s4)
    apply (rule s5)
    apply (rule s6)
    done
qed

section \<open>Accounting of reserved bytes\<close>

text \<open>
  C2. Between public operations \<^verbatim>\<open>block.reserved\<close> should equal the bytes of the regions
  whose status is InUse or Dedicated. The code loses this when \<^verbatim>\<open>reclaim\<close> is called on a
  region that was retained: \<^verbatim>\<open>release_block_region\<close> returns early because the usage
  count is still positive, and \<^verbatim>\<open>free_block_region\<close> then marks the region Available
  without taking its size off \<^verbatim>\<open>block.reserved\<close>. On the test block, after
  \<^verbatim>\<open>reserve(4 bytes)\<close>, \<^verbatim>\<open>retain\<close> and \<^verbatim>\<open>reclaim\<close> of the region returned, the list is one
  Available region and \<^verbatim>\<open>block.reserved\<close> is still 4.
\<close>

theorem reclaim_retained_keeps_reserved:
  "map_option fst (reserve (test_allocator 4) (test_request 4 4)) = Some (Some 1)
   \<and> (case run (test_allocator 4) [Reserve (test_request 4 4), Retain (Some 1), Reclaim (Some 1)] of
        None \<Rightarrow> False
      | Some s \<Rightarrow> block_regions s [1] \<and> in_use_bytes s [1] = 0 \<and> reserved (block s) = 4
                  \<and> map_option status (arena s 1) = Some Available)"
  by code_simp

section \<open>Alignment of the region returned\<close>

text \<open>
  C3. The offset of the region \<^verbatim>\<open>reserve\<close> returns should be a multiple of the conformed
  alignment of the request. The code conforms the alignment only to size the candidate
  and to place the region split off behind it; the offset of the region it returns was
  fixed by an earlier split. On a block of alignment 64, \<^verbatim>\<open>reserve(4 bytes, alignment 16)\<close>
  leaves the free region at offset 64, and \<^verbatim>\<open>reserve(4 bytes, alignment 128)\<close> returns it:
  the conformed alignment is 128 and the offset 64.
\<close>

theorem reserve_offset_not_conformed:
  "conform_alignment 128 64 = 128
   \<and> map_option fst (reserve (test_allocator 64) (test_request 4 16)) = Some (Some 1)
   \<and> (case run (test_allocator 64) [Reserve (test_request 4 16)] of
        None \<Rightarrow> False
      | Some s \<Rightarrow>
        (case reserve s (test_request 4 128) of
           Some (Some p, s1) \<Rightarrow>
             map_option (\<lambda>r. offset (memory r)) (arena s1 p) = Some 64
             \<and> map_option (\<lambda>r. offset (memory r) mod conform_alignment 128 64) (arena s1 p) = Some 64
         | _ \<Rightarrow> False))"
  by code_simp

section \<open>Retain and release\<close>

text \<open>
  C5, as amended. \<^verbatim>\<open>release\<close> of a live region of this allocator decrements the usage
  count only when it is positive, never invokes a callback and leaves the region's
  memory record, its handle included, as it was; when the count is 0 afterwards the
  region is Available and, if it was not Available before, its size is taken off
  \<^verbatim>\<open>block.reserved\<close>; otherwise status and \<^verbatim>\<open>block.reserved\<close> are unchanged. For a region
  that \<^verbatim>\<open>reserve\<close> has just returned (InUse or Dedicated, usage count 1) and any
  interleaving of fewer than \<open>2^32 - 1\<close> \<^verbatim>\<open>retain\<close> and \<^verbatim>\<open>release\<close> calls on it, every call
  returns, and the region is InUse or Dedicated at the end if and only if the net count
  \<open>1 + N - M\<close> was positive after every call of the interleaving: a count that has
  reached 0 releases the region, and a later \<^verbatim>\<open>retain\<close> does not make it InUse again.
\<close>

theorem release_keeps_handle_and_counts:
  assumes "arena s p = Some r" "block_ptr r = block_addr s"
  shows "(\<exists>s' r'. release s (Some p) = Some s' \<and> arena s' p = Some r'
            \<and> usage_count r' = (if usage_count r > 0 then usage_count r - 1 else usage_count r)
            \<and> memory r' = memory r \<and> calls s' = calls s
            \<and> (if usage_count r' = 0
                then status r' = Available
                     \<and> reserved (block s') =
                         (if status r \<noteq> Available then reserved (block s) - region_size (memory r)
                          else reserved (block s))
                else status r' = status r \<and> reserved (block s') = reserved (block s)))
       \<and> (in_use r \<and> usage_count r = 1 \<and> set cs \<subseteq> {Retain (Some p), Release (Some p)}
            \<and> length cs < 2 ^ 32 - 1
          \<longrightarrow> (\<exists>s' r'. run s cs = Some s' \<and> arena s' p = Some r'
                  \<and> (in_use r' \<longleftrightarrow> net_stays_positive cs)
                  \<and> memory r' = memory r \<and> calls s' = calls s))"
proof (intro conjI impI)
  let ?r1 = "decrement_usage r"
  have mem: "memory ?r1 = memory r" "status ?r1 = status r"
    and cnt: "usage_count ?r1 = (if usage_count r > 0 then usage_count r - 1 else usage_count r)"
    by (simp_all add: decrement_usage_def)
  note rs = release_step [OF assms]
  show "\<exists>s' r'. release s (Some p) = Some s' \<and> arena s' p = Some r'
            \<and> usage_count r' = (if usage_count r > 0 then usage_count r - 1 else usage_count r)
            \<and> memory r' = memory r \<and> calls s' = calls s
            \<and> (if usage_count r' = 0
                then status r' = Available
                     \<and> reserved (block s') =
                         (if status r \<noteq> Available then reserved (block s) - region_size (memory r)
                          else reserved (block s))
                else status r' = status r \<and> reserved (block s') = reserved (block s))"
  proof (cases "0 < usage_count ?r1")
    case True
    then show ?thesis using rs mem cnt by (auto simp: word_gt_0)
  next
    case False
    then have z: "usage_count ?r1 = 0" by (simp add: word_gt_0)
    show ?thesis
    proof (cases "status r = Available")
      case True
      then show ?thesis using rs mem cnt z by auto
    next
      case ne: False
      then show ?thesis using rs mem cnt z by auto
    qed
  qed
next
  assume a: "in_use r \<and> usage_count r = 1 \<and> set cs \<subseteq> {Retain (Some p), Release (Some p)}
            \<and> length cs < 2 ^ 32 - 1"
  from retain_release_run [OF assms, of cs] a
  obtain s' r' where run: "run s cs = Some s'" "arena s' p = Some r'"
      "memory r' = memory r" "calls s' = calls s"
      and c: "if net_stays_positive cs then status r' = status r else status r' = Available"
    by (auto split: if_splits)
  have "in_use r' \<longleftrightarrow> net_stays_positive cs"
    using c a by (auto simp: in_use_def split: if_splits)
  then show "\<exists>s' r'. run s cs = Some s' \<and> arena s' p = Some r'
                  \<and> (in_use r' \<longleftrightarrow> net_stays_positive cs)
                  \<and> memory r' = memory r \<and> calls s' = calls s"
    using run by blast
qed

text \<open>The theorem at the region the test's first \<^verbatim>\<open>reserve\<close> returns.\<close>

theorem release_keeps_handle_and_counts_witness:
  "\<exists>s r. run (test_allocator 4) [Reserve (test_request 4 4)] = Some s
     \<and> arena s 1 = Some r \<and> block_ptr r = block_addr s \<and> in_use r \<and> usage_count r = 1
     \<and> (\<exists>s' r'. release s (Some 1) = Some s' \<and> arena s' 1 = Some r' \<and> usage_count r' = 0
            \<and> status r' = Available \<and> memory r' = memory r
            \<and> reserved (block s') = reserved (block s) - region_size (memory r))
     \<and> (\<exists>s' r'. run s [Retain (Some 1), Release (Some 1), Release (Some 1), Retain (Some 1)] = Some s'
            \<and> arena s' 1 = Some r'
            \<and> (in_use r' \<longleftrightarrow> net_stays_positive [Retain (Some 1), Release (Some 1), Release (Some 1), Retain (Some 1)])
            \<and> memory r' = memory r \<and> calls s' = calls s)"
proof -
  have "case run (test_allocator 4) [Reserve (test_request 4 4)] of None \<Rightarrow> False
        | Some s \<Rightarrow> (case arena s 1 of None \<Rightarrow> False
                     | Some r \<Rightarrow> block_ptr r = block_addr s \<and> in_use r \<and> usage_count r = 1)"
    by code_simp
  then obtain s r where s: "run (test_allocator 4) [Reserve (test_request 4 4)] = Some s"
      "arena s 1 = Some r" "block_ptr r = block_addr s" "in_use r" "usage_count r = 1"
    by (auto split: option.splits)
  have st: "status r \<noteq> Available" using s(4) by (auto simp: in_use_def)
  note t = release_keeps_handle_and_counts [OF s(2,3),
      of "[Retain (Some 1), Release (Some 1), Release (Some 1), Retain (Some 1)]"]
  have "\<exists>s' r'. release s (Some 1) = Some s' \<and> arena s' 1 = Some r' \<and> usage_count r' = 0
            \<and> status r' = Available \<and> memory r' = memory r
            \<and> reserved (block s') = reserved (block s) - region_size (memory r)"
    using t [THEN conjunct1] s(5) st by auto
  moreover have "\<exists>s' r'. run s [Retain (Some 1), Release (Some 1), Release (Some 1), Retain (Some 1)] = Some s'
            \<and> arena s' 1 = Some r'
            \<and> (in_use r' \<longleftrightarrow> net_stays_positive [Retain (Some 1), Release (Some 1), Release (Some 1), Retain (Some 1)])
            \<and> memory r' = memory r \<and> calls s' = calls s"
    using t [THEN conjunct2] s(4,5) by simp
  ultimately show ?thesis using s by blast
qed

text \<open>
  C5 as stated fails: after \<^verbatim>\<open>release\<close> and then \<^verbatim>\<open>retain\<close> of the region the net count is
  \<open>1 + 1 - 1 = 1 > 0\<close>, and the region is Available with usage count 1.
\<close>

theorem retain_after_release_counterexample:
  "map_option fst (reserve (test_allocator 4) (test_request 4 4)) = Some (Some 1)
   \<and> 0 < net_usage [Release (Some 1), Retain (Some 1)]
   \<and> (case run (test_allocator 4) [Reserve (test_request 4 4), Release (Some 1), Retain (Some 1)] of
        None \<Rightarrow> False
      | Some s \<Rightarrow> (case arena s 1 of None \<Rightarrow> False
                   | Some r \<Rightarrow> \<not> in_use r \<and> status r = Available \<and> usage_count r = 1))"
  by code_simp

section \<open>Reclaim\<close>







end
